theory Spec2Isabelle
  imports Main "HOL-Library.Word"
begin

unbundle bit_operations_syntax

section \<open>The 4-bit HD44780 driver \<open>alcd.c\<close> as state-passing functions\<close>

text \<open>
  The driver keeps three globals (\<open>__alcd_initStatus\<close>, \<open>__alcd_x_position\<close>,
  \<open>__alcd_y_position\<close>) and acts on the outside world only through
  \<open>HAL_GPIO_WritePin\<close> and the microsecond delay \<open>delay_us\<close>. The model threads a record
  holding the three globals together with the chronological list of those two kinds of
  external calls. The leading underscores of the C names are dropped.
\<close>

type_synonym u8 = "8 word"

datatype pin = RS | EN | DB4 | DB5 | DB6 | DB7 | BL

datatype event = WritePin pin bool | Delay nat

record lcd =
  alcd_initStatus :: bool
  alcd_x_position :: u8
  alcd_y_position :: u8
  bus :: "event list"

text \<open>The globals as initialised at program start (lines 44-46), with nothing yet on the bus.\<close>

definition alcd_start :: lcd where
  "alcd_start = \<lparr>alcd_initStatus = False, alcd_x_position = 0, alcd_y_position = 0, bus = []\<rparr>"

subsection \<open>Constants of \<open>alcd.h\<close>\<close>

definition alcd_writeCmd :: bool where "alcd_writeCmd = False"
definition alcd_writeData :: bool where "alcd_writeData = True"

definition alcd_max_x :: u8 where "alcd_max_x = 16"
definition alcd_max_y :: u8 where "alcd_max_y = 2"

definition alcd_delay_CMD :: nat where "alcd_delay_CMD = 50"
definition alcd_delay_modeSet :: nat where "alcd_delay_modeSet = 5000"
definition alcd_delay_powerON :: nat where "alcd_delay_powerON = 50000"

definition alcd_Mode_4bit_2line_5x8 :: u8 where "alcd_Mode_4bit_2line_5x8 = 0x28"
definition alcd_Mode_4bit_Step1 :: u8 where "alcd_Mode_4bit_Step1 = 0x33"
definition alcd_Mode_4bit_Step2 :: u8 where "alcd_Mode_4bit_Step2 = 0x32"

definition alcd_Display_Clear :: u8 where "alcd_Display_Clear = 0x01"
definition alcd_Display_OFF :: u8 where "alcd_Display_OFF = 0x08"
definition alcd_Display_ON :: u8 where "alcd_Display_ON = 0x0C"
definition alcd_Cursor_OFF :: u8 where "alcd_Cursor_OFF = 0x0C"
definition alcd_Entry_Inc :: u8 where "alcd_Entry_Inc = 0x06"

definition alcd_Line1_Start :: u8 where "alcd_Line1_Start = 0x80"
definition alcd_Line2_Start :: u8 where "alcd_Line2_Start = 0xC0"
definition alcd_CGRAM_Start :: u8 where "alcd_CGRAM_Start = 0x40"

lemmas alcd_consts =
  alcd_writeCmd_def alcd_writeData_def alcd_max_x_def alcd_max_y_def
  alcd_delay_CMD_def alcd_delay_modeSet_def alcd_delay_powerON_def
  alcd_Mode_4bit_2line_5x8_def alcd_Mode_4bit_Step1_def alcd_Mode_4bit_Step2_def
  alcd_Display_Clear_def alcd_Display_OFF_def alcd_Display_ON_def alcd_Cursor_OFF_def
  alcd_Entry_Inc_def alcd_Line1_Start_def alcd_Line2_Start_def alcd_CGRAM_Start_def

subsection \<open>External collaborators\<close>

text \<open>
  \<open>HAL_GPIO_WritePin\<close> and \<open>delay_us\<close> (reached through the macro \<open>__alcd_delay\<close>) belong
  to the platform. Each call is recorded, in program order, at the end of \<open>bus\<close>.
\<close>

definition HAL_GPIO_WritePin :: "lcd \<Rightarrow> pin \<Rightarrow> bool \<Rightarrow> lcd" where
  "HAL_GPIO_WritePin s p v = s\<lparr>bus := bus s @ [WritePin p v]\<rparr>"

definition alcd_delay :: "lcd \<Rightarrow> nat \<Rightarrow> lcd" where
  "alcd_delay s us = s\<lparr>bus := bus s @ [Delay us]\<rparr>"

text \<open>
  Modelled from the spec: the macros \<open>bitCheck\<close> and \<open>bitChange\<close> come from \<open>aKaReZa.h\<close>,
  which is not among the sources. The specification has \<open>alcd_write\<close> drive the data lines
  with "bits 7-4" and "bits 3-0" of the byte, and has \<open>alcd_display\<close> "set bit 0 = blink,
  bit 1 = cursor, bit 2 = display, each independently": \<open>bitCheck x n\<close> reads bit \<open>n\<close> of
  \<open>x\<close>, and \<open>bitChange x n v\<close> gives bit \<open>n\<close> of \<open>x\<close> the value \<open>v\<close>.
\<close>

definition bitCheck :: "u8 \<Rightarrow> nat \<Rightarrow> bool" where
  "bitCheck x n = bit x n"

definition bitChange :: "u8 \<Rightarrow> nat \<Rightarrow> bool \<Rightarrow> u8" where
  "bitChange x n v = (if v then set_bit n x else unset_bit n x)"

subsection \<open>Low-level write (lines 238-280)\<close>

definition alcd_write :: "lcd \<Rightarrow> u8 \<Rightarrow> bool \<Rightarrow> lcd" where
  "alcd_write s0 data cmdData =
    (let s = HAL_GPIO_WritePin s0 RS cmdData;
         s = HAL_GPIO_WritePin s DB4 (bitCheck data 4);
         s = HAL_GPIO_WritePin s DB5 (bitCheck data 5);
         s = HAL_GPIO_WritePin s DB6 (bitCheck data 6);
         s = HAL_GPIO_WritePin s DB7 (bitCheck data 7);
         s = HAL_GPIO_WritePin s EN True;
         s = (if alcd_initStatus s = False
              then alcd_delay s alcd_delay_modeSet
              else alcd_delay s alcd_delay_CMD);
         s = HAL_GPIO_WritePin s EN False;
         s = HAL_GPIO_WritePin s DB4 (bitCheck data 0);
         s = HAL_GPIO_WritePin s DB5 (bitCheck data 1);
         s = HAL_GPIO_WritePin s DB6 (bitCheck data 2);
         s = HAL_GPIO_WritePin s DB7 (bitCheck data 3);
         s = HAL_GPIO_WritePin s EN True;
         s = (if alcd_initStatus s = False
              then alcd_delay s alcd_delay_modeSet
              else alcd_delay s alcd_delay_CMD);
         s = HAL_GPIO_WritePin s EN False
     in s)"

subsection \<open>Display control (lines 112-138)\<close>

definition alcd_display :: "lcd \<Rightarrow> bool \<Rightarrow> bool \<Rightarrow> bool \<Rightarrow> lcd" where
  "alcd_display s Display Cursor Blink =
    (let cursorState = alcd_Display_OFF;
         cursorState = bitChange cursorState 0 Blink;
         cursorState = bitChange cursorState 1 Cursor;
         cursorState = bitChange cursorState 2 Display
     in alcd_write s cursorState alcd_writeCmd)"

definition alcd_clear :: "lcd \<Rightarrow> lcd" where
  "alcd_clear s0 =
    (let s = alcd_write s0 alcd_Display_Clear alcd_writeCmd;
         s = s\<lparr>alcd_x_position := 0\<rparr>;
         s = s\<lparr>alcd_y_position := 0\<rparr>
     in alcd_delay s alcd_delay_modeSet)"

subsection \<open>Cursor positioning (lines 153-174)\<close>

definition alcd_gotoxy :: "lcd \<Rightarrow> u8 \<Rightarrow> u8 \<Rightarrow> lcd" where
  "alcd_gotoxy s0 x y =
    (let s = (if x \<ge> alcd_max_x \<or> y \<ge> alcd_max_y
              then s0\<lparr>alcd_x_position := 0, alcd_y_position := 0\<rparr>
              else s0\<lparr>alcd_x_position := x, alcd_y_position := y\<rparr>);
         address = (if alcd_y_position s = 0 then alcd_Line1_Start else alcd_Line2_Start);
         address = address + alcd_x_position s
     in alcd_write s address alcd_writeCmd)"

subsection \<open>Character output (lines 189-218)\<close>

definition alcd_putc :: "lcd \<Rightarrow> u8 \<Rightarrow> lcd" where
  "alcd_putc s0 c =
    (let s = alcd_write s0 c alcd_writeData;
         s = s\<lparr>alcd_x_position := alcd_x_position s + 1\<rparr>
     in if alcd_x_position s \<ge> alcd_max_x
        then (let s = s\<lparr>alcd_x_position := 0\<rparr>;
                  s = s\<lparr>alcd_y_position := alcd_y_position s + 1\<rparr>
              in alcd_gotoxy s (alcd_x_position s) (alcd_y_position s))
        else s)"

text \<open>
  \<open>alcd_puts\<close> walks the bytes found at the pointer until it reads a zero byte. The
  argument is the content of the buffer from the pointer onwards; a buffer that ends
  before any zero byte makes the C loop read past it, which is the result \<open>None\<close>.
\<close>

fun alcd_puts :: "lcd \<Rightarrow> u8 list \<Rightarrow> lcd option" where
  "alcd_puts s [] = None"
| "alcd_puts s (c # str) = (if c \<noteq> 0 then alcd_puts (alcd_putc s c) str else Some s)"

subsection \<open>Custom characters (lines 62-77)\<close>

text \<open>
  The loop of \<open>alcd_customChar\<close>: the counter, the running CGRAM address and the rest of
  the pattern buffer are the loop variables. Reading a row past the end of the buffer is
  the result \<open>None\<close>.
\<close>

function customChar_loop :: "lcd \<Rightarrow> u8 \<Rightarrow> u8 \<Rightarrow> u8 list \<Rightarrow> lcd option" where
  "customChar_loop s forCounter CG_Add CGRAMdata =
    (if forCounter < 8
     then (case CGRAMdata of
             [] \<Rightarrow> None
           | d # rest \<Rightarrow>
               customChar_loop
                 (alcd_write (alcd_write s CG_Add alcd_writeCmd) d alcd_writeData)
                 (forCounter + 1) (CG_Add + 1) rest)
     else Some s)"
  by pat_completeness auto
termination
proof (relation "measure (\<lambda>(s, forCounter, CG_Add, CGRAMdata). 8 - unat forCounter)")
  show "wf (measure (\<lambda>(s, forCounter, CG_Add, CGRAMdata). 8 - unat forCounter))"
    by simp
next
  fix s :: lcd and forCounter CG_Add :: u8 and CGRAMdata rest :: "u8 list" and d :: u8
  assume lt: "forCounter < 8"
  then have "unat forCounter < 8"
    by (simp add: word_less_nat_alt)
  moreover from this have "unat (forCounter + 1) = unat forCounter + 1"
    by (simp add: unat_word_ariths)
  ultimately show
    "((alcd_write (alcd_write s CG_Add alcd_writeCmd) d alcd_writeData,
       forCounter + 1, CG_Add + 1, rest),
      (s, forCounter, CG_Add, CGRAMdata))
     \<in> measure (\<lambda>(s, forCounter, CG_Add, CGRAMdata). 8 - unat forCounter)"
    by simp
qed

declare customChar_loop.simps [simp del]

definition alcd_customChar :: "lcd \<Rightarrow> u8 \<Rightarrow> u8 list \<Rightarrow> lcd option" where
  "alcd_customChar s0 CGRAMadd CGRAMdata =
    (let CG_Add = alcd_CGRAM_Start + push_bit 3 CGRAMadd
     in case customChar_loop s0 0 CG_Add CGRAMdata of
          None \<Rightarrow> None
        | Some s \<Rightarrow> Some (alcd_gotoxy s (alcd_x_position s) (alcd_y_position s)))"

subsection \<open>Initialisation (lines 302-335)\<close>

text \<open>
  The backlight line is compiled in only when \<open>__alcd_BL_GPIO_Port\<close> is defined; the pin
  configuration is not among the sources, so whether it is defined is the parameter
  \<open>bl\<close>.
\<close>

definition alcd_init :: "bool \<Rightarrow> lcd \<Rightarrow> lcd" where
  "alcd_init bl s0 =
    (let s = s0\<lparr>alcd_initStatus := False\<rparr>;
         s = alcd_delay s alcd_delay_powerON;
         s = (if bl then HAL_GPIO_WritePin s BL True else s);
         s = alcd_write s alcd_Mode_4bit_Step1 alcd_writeCmd;
         s = alcd_delay s alcd_delay_modeSet;
         s = alcd_write s alcd_Mode_4bit_Step2 alcd_writeCmd;
         s = alcd_delay s alcd_delay_modeSet;
         s = alcd_write s alcd_Mode_4bit_2line_5x8 alcd_writeCmd;
         s = alcd_delay s alcd_delay_modeSet;
         s = alcd_write s alcd_Display_ON alcd_writeCmd;
         s = alcd_delay s alcd_delay_modeSet;
         s = alcd_write s alcd_Cursor_OFF alcd_writeCmd;
         s = alcd_delay s alcd_delay_modeSet;
         s = alcd_write s alcd_Entry_Inc alcd_writeCmd;
         s = alcd_delay s alcd_delay_modeSet;
         s = alcd_write s alcd_Display_Clear alcd_writeCmd;
         s = alcd_delay s alcd_delay_modeSet
     in s\<lparr>alcd_initStatus := True\<rparr>)"

subsection \<open>Sequences of public calls\<close>

datatype call =
    Init
  | Gotoxy u8 u8
  | Clear
  | Putc u8
  | Puts "u8 list"
  | CustomChar u8 "u8 list"
  | Display bool bool bool

fun exec :: "bool \<Rightarrow> lcd \<Rightarrow> call \<Rightarrow> lcd option" where
  "exec bl s Init = Some (alcd_init bl s)"
| "exec bl s (Gotoxy x y) = Some (alcd_gotoxy s x y)"
| "exec bl s Clear = Some (alcd_clear s)"
| "exec bl s (Putc c) = Some (alcd_putc s c)"
| "exec bl s (Puts str) = alcd_puts s str"
| "exec bl s (CustomChar a pat) = alcd_customChar s a pat"
| "exec bl s (Display d c b) = Some (alcd_display s d c b)"

fun run :: "bool \<Rightarrow> lcd \<Rightarrow> call list \<Rightarrow> lcd option" where
  "run bl s [] = Some s"
| "run bl s (c # cs) = (case exec bl s c of None \<Rightarrow> None | Some s' \<Rightarrow> run bl s' cs)"

section \<open>Observing the bus\<close>

text \<open>The events a call has added to the bus: what \<open>s'\<close> holds beyond \<open>s\<close>.\<close>

definition fresh :: "lcd \<Rightarrow> lcd \<Rightarrow> event list" where
  "fresh s s' = drop (length (bus s)) (bus s')"

text \<open>
  The events of one \<open>alcd_write\<close>, written out; \<open>ini\<close> is the value of
  \<open>__alcd_initStatus\<close> during the call.
\<close>

definition write_evs :: "bool \<Rightarrow> u8 \<Rightarrow> bool \<Rightarrow> event list" where
  "write_evs ini d m =
    [WritePin RS m,
     WritePin DB4 (bit d 4), WritePin DB5 (bit d 5), WritePin DB6 (bit d 6),
     WritePin DB7 (bit d 7),
     WritePin EN True, Delay (if ini then 50 else 5000), WritePin EN False,
     WritePin DB4 (bit d 0), WritePin DB5 (bit d 1), WritePin DB6 (bit d 2),
     WritePin DB7 (bit d 3),
     WritePin EN True, Delay (if ini then 50 else 5000), WritePin EN False]"

text \<open>
  An enable pulse is EN driven high and then low. The controller latches on the falling
  edge: \<open>pulses\<close> follows the pin levels through a list of events and, at every write of
  low to EN while EN is high, records the level of RS and the value on DB7..DB4 (DB7 the
  most significant bit).
\<close>

type_synonym levels = "pin \<Rightarrow> bool"

definition nibble :: "levels \<Rightarrow> u8" where
  "nibble lv = push_bit 3 (of_bool (lv DB7)) OR push_bit 2 (of_bool (lv DB6))
               OR push_bit 1 (of_bool (lv DB5)) OR of_bool (lv DB4)"

fun pulses :: "levels \<Rightarrow> event list \<Rightarrow> (bool \<times> u8) list" where
  "pulses lv [] = []"
| "pulses lv (Delay n # es) = pulses lv es"
| "pulses lv (WritePin p v # es) =
     (if p = EN \<and> lv EN \<and> \<not> v
      then (lv RS, nibble lv) # pulses (lv(p := v)) es
      else pulses (lv(p := v)) es)"

text \<open>
  In 4-bit mode two consecutive pulses make one transfer: the first carries the high
  nibble, the second the low nibble; RS at the first pulse tells data (high, \<open>True\<close>, as
  \<open>__alcd_writeData\<close>) from command (low, \<open>False\<close>, as \<open>__alcd_writeCmd\<close>).
\<close>

fun transfers :: "(bool \<times> u8) list \<Rightarrow> (bool \<times> u8) list" where
  "transfers ((r, h) # (r', l) # ps) = (r, push_bit 4 h OR l) # transfers ps"
| "transfers ps = []"

definition sent :: "levels \<Rightarrow> event list \<Rightarrow> (bool \<times> u8) list" where
  "sent lv es = transfers (pulses lv es)"

text \<open>All pins low: the levels used where one concrete starting level is needed.\<close>

definition all_low :: levels where
  "all_low p = False"

text \<open>
  For every write of high to EN, the delay that comes directly after it (\<open>None\<close> when
  the next event is not a delay).
\<close>

fun pulse_delays :: "event list \<Rightarrow> nat option list" where
  "pulse_delays [] = []"
| "pulse_delays (e # es) =
     (if e = WritePin EN True
      then (case es of Delay n # es' \<Rightarrow> Some n | _ \<Rightarrow> None) # pulse_delays es
      else pulse_delays es)"

text \<open>The pin levels that one \<open>alcd_write\<close> leaves behind.\<close>

definition after_write :: "levels \<Rightarrow> u8 \<Rightarrow> bool \<Rightarrow> levels" where
  "after_write lv d m =
     lv(RS := m, DB4 := bit d 0, DB5 := bit d 1, DB6 := bit d 2, DB7 := bit d 3, EN := False)"

text \<open>
  The cursor as one number: the cell index on the 16 by 2 grid, counted row by row.
\<close>

definition cell :: "lcd \<Rightarrow> nat" where
  "cell s = unat (alcd_y_position s) * 16 + unat (alcd_x_position s)"

text \<open>
  A sequence of calls is well-formed when every string buffer holds a zero byte and every
  glyph buffer holds at least 8 bytes.
\<close>

fun call_ok :: "call \<Rightarrow> bool" where
  "call_ok (Puts str) = (0 \<in> set str)"
| "call_ok (CustomChar a pat) = (8 \<le> length pat)"
| "call_ok c = True"

text \<open>
  The events of the loop of \<open>alcd_customChar\<close>: for every row, the CGRAM address as a
  command and the pattern byte as data, the address going up by one per row.
\<close>

fun glyph_evs :: "bool \<Rightarrow> u8 \<Rightarrow> u8 list \<Rightarrow> event list" where
  "glyph_evs ini a [] = []"
| "glyph_evs ini a (d # ds) =
     write_evs ini a False @ write_evs ini d True @ glyph_evs ini (a + 1) ds"

text \<open>
  \<open>paced d\<close> holds of a list of events when every write of high to EN is directly
  followed by a delay of \<open>d\<close> microseconds and then by the write of low to EN: every
  enable pulse is \<open>d\<close> microseconds wide.
\<close>

fun paced :: "nat \<Rightarrow> event list \<Rightarrow> bool" where
  "paced d [] = True"
| "paced d (e # es) =
     (if e = WritePin EN True
      then (case es of
              Delay n # WritePin p v # es' \<Rightarrow> n = d \<and> p = EN \<and> \<not> v \<and> paced d es'
            | _ \<Rightarrow> False)
      else paced d es)"

text \<open>
  For every write of low to EN, the event that comes directly after it (\<open>None\<close> at the
  end of the list).
\<close>

fun after_pulse :: "event list \<Rightarrow> event option list" where
  "after_pulse [] = []"
| "after_pulse (e # es) =
     (if e = WritePin EN False
      then (case es of [] \<Rightarrow> None | e' # es' \<Rightarrow> Some e') # after_pulse es
      else after_pulse es)"

section \<open>The effect of each function on the bus\<close>

lemma fresh_append [simp]: "fresh s (s'\<lparr>bus := bus s @ es\<rparr>) = es"
  by (simp add: fresh_def)

lemma WritePin_bus:
  "HAL_GPIO_WritePin (s\<lparr>bus := b\<rparr>) p v = s\<lparr>bus := b @ [WritePin p v]\<rparr>"
  by (simp add: HAL_GPIO_WritePin_def)

lemma delay_bus: "alcd_delay (s\<lparr>bus := b\<rparr>) n = s\<lparr>bus := b @ [Delay n]\<rparr>"
  by (simp add: alcd_delay_def)

lemma initStatus_bus: "alcd_initStatus (s\<lparr>bus := b\<rparr>) = alcd_initStatus s"
  by simp

lemma alcd_write_eq:
  "alcd_write s d m = s\<lparr>bus := bus s @ write_evs (alcd_initStatus s) d m\<rparr>"
proof -
  have "alcd_write (s\<lparr>bus := bus s\<rparr>) d m =
          s\<lparr>bus := bus s @ write_evs (alcd_initStatus s) d m\<rparr>"
    unfolding alcd_write_def Let_def WritePin_bus delay_bus initStatus_bus
    by (cases "alcd_initStatus s")
       (simp_all only: WritePin_bus delay_bus initStatus_bus write_evs_def bitCheck_def alcd_consts
          append.simps append_assoc if_True if_False simp_thms)
  then show ?thesis by simp
qed

lemma nibble_high:
  assumes "lv DB7 = bit d 7" "lv DB6 = bit d 6" "lv DB5 = bit d 5" "lv DB4 = bit d 4"
  shows "nibble lv = drop_bit 4 (d::u8)"
proof (rule bit_eqI)
  fix n :: nat
  consider "n = 0" | "n = 1" | "n = 2" | "n = 3" | "4 \<le> n" by arith
  then show "bit (nibble lv) n = bit (drop_bit 4 d) n"
    by cases (auto simp: nibble_def bit_simps assms dest: bit_imp_le_length)
qed

lemma nibble_low:
  assumes "lv DB7 = bit d 3" "lv DB6 = bit d 2" "lv DB5 = bit d 1" "lv DB4 = bit d 0"
  shows "nibble lv = take_bit 4 (d::u8)"
proof (rule bit_eqI)
  fix n :: nat
  consider "n = 0" | "n = 1" | "n = 2" | "n = 3" | "4 \<le> n" by arith
  then show "bit (nibble lv) n = bit (take_bit 4 d) n"
    by cases (auto simp: nibble_def bit_simps assms dest: bit_imp_le_length)
qed

lemma join_nibbles: "push_bit 4 (drop_bit 4 d) OR take_bit 4 d = (d::u8)"
  by (rule bit_eqI) (auto simp add: bit_simps)

lemma pulses_write_evs:
  "pulses lv (write_evs ini d m @ es) =
     (m, drop_bit 4 d) # (m, take_bit 4 d) # pulses (after_write lv d m) es"
  by (simp add: write_evs_def after_write_def nibble_high[of _ d] nibble_low[of _ d]
      fun_upd_twist)

lemma sent_write_evs:
  "sent lv (write_evs ini d m @ es) = (m, d) # sent (after_write lv d m) es"
  by (simp add: sent_def pulses_write_evs join_nibbles)

lemma sent_Delay: "sent lv (Delay n # es) = sent lv es"
  by (simp add: sent_def)

lemma sent_Nil: "sent lv [] = []"
  by (simp add: sent_def)

lemma sent_BL: "sent lv (WritePin BL v # es) = sent (lv(BL := v)) es"
  by (simp add: sent_def)

lemma pulse_delays_write_evs:
  "pulse_delays (write_evs ini d m @ es) =
     Some (if ini then 50 else 5000) # Some (if ini then 50 else 5000) # pulse_delays es"
  by (simp add: write_evs_def)

lemma alcd_gotoxy_eq:
  "alcd_gotoxy s x y =
     (if x < 16 \<and> y < 2
      then s\<lparr>alcd_x_position := x, alcd_y_position := y,
             bus := bus s @ write_evs (alcd_initStatus s) ((if y = 0 then 0x80 else 0xC0) + x) False\<rparr>
      else s\<lparr>alcd_x_position := 0, alcd_y_position := 0,
             bus := bus s @ write_evs (alcd_initStatus s) 0x80 False\<rparr>)"
  by (auto simp add: alcd_gotoxy_def alcd_write_eq alcd_consts Let_def not_le)

lemma alcd_clear_eq:
  "alcd_clear s =
     s\<lparr>alcd_x_position := 0, alcd_y_position := 0,
        bus := bus s @ write_evs (alcd_initStatus s) 0x01 False @ [Delay 5000]\<rparr>"
  by (simp add: alcd_clear_def alcd_write_eq alcd_delay_def alcd_consts Let_def)

lemma alcd_display_eq:
  "alcd_display s d c b =
     s\<lparr>bus := bus s @ write_evs (alcd_initStatus s)
        (0x08 OR push_bit 2 (of_bool d) OR push_bit 1 (of_bool c) OR of_bool b) False\<rparr>"
  by (cases d; cases c; cases b)
     (simp_all add: alcd_display_def alcd_write_eq bitChange_def alcd_consts Let_def
        set_bit_eq_or unset_bit_eq_and_not)

lemma alcd_putc_eq:
  "alcd_putc s c =
     (if alcd_x_position s + 1 \<ge> 16
      then alcd_gotoxy (s\<lparr>bus := bus s @ write_evs (alcd_initStatus s) c True,
              alcd_x_position := 0, alcd_y_position := alcd_y_position s + 1\<rparr>)
              0 (alcd_y_position s + 1)
      else s\<lparr>bus := bus s @ write_evs (alcd_initStatus s) c True,
             alcd_x_position := alcd_x_position s + 1\<rparr>)"
  by (simp add: alcd_putc_def alcd_write_eq alcd_consts Let_def)

lemma u8_lt_16_succ:
  assumes "(x::u8) < 16"
  shows "(16 \<le> x + 1) = (x = 15)"
proof -
  from assms have lt: "unat x < 16"
    by (simp add: word_less_nat_alt)
  then have "unat (x + 1) = unat x + 1"
    by (simp add: unat_word_ariths)
  then have "(16 \<le> x + 1) = (unat x = 15)"
    using lt by (simp add: word_le_nat_alt) arith
  also have "\<dots> = (x = 15)"
    by (simp add: word_unat_eq_iff)
  finally show ?thesis .
qed

lemma u8_lt_2: "(y::u8) < 2 \<Longrightarrow> y = 0 \<or> y = 1"
  by unat_arith

lemma alcd_putc_inrange:
  assumes "alcd_x_position s < 16" "alcd_y_position s < 2"
  shows "alcd_putc s c =
     (if alcd_x_position s = 15
      then s\<lparr>alcd_x_position := 0,
             alcd_y_position := (if alcd_y_position s = 0 then 1 else 0),
             bus := bus s @ write_evs (alcd_initStatus s) c True
                    @ write_evs (alcd_initStatus s) (if alcd_y_position s = 0 then 0xC0 else 0x80) False\<rparr>
      else s\<lparr>alcd_x_position := alcd_x_position s + 1,
             bus := bus s @ write_evs (alcd_initStatus s) c True\<rparr>)"
  using u8_lt_2[OF assms(2)] 
  by (auto simp add: alcd_putc_eq u8_lt_16_succ[OF assms(1)] alcd_gotoxy_eq)

lemma alcd_init_eq:
  "alcd_init bl s =
     s\<lparr>alcd_initStatus := True,
       bus := bus s @ Delay 50000 # (if bl then [WritePin BL True] else []) @
         write_evs False 0x33 False @ [Delay 5000] @
         write_evs False 0x32 False @ [Delay 5000] @
         write_evs False 0x28 False @ [Delay 5000] @
         write_evs False 0x0C False @ [Delay 5000] @
         write_evs False 0x0C False @ [Delay 5000] @
         write_evs False 0x06 False @ [Delay 5000] @
         write_evs False 0x01 False @ [Delay 5000]\<rparr>"
  by (simp add: alcd_init_def alcd_write_eq alcd_delay_def HAL_GPIO_WritePin_def alcd_consts Let_def)

lemma putc_cell:
  assumes "alcd_x_position s < 16" "alcd_y_position s < 2"
  shows "alcd_x_position (alcd_putc s c) < 16 \<and> alcd_y_position (alcd_putc s c) < 2
         \<and> cell (alcd_putc s c) = (cell s + 1) mod 32"
proof -
  from assms(1) have x: "unat (alcd_x_position s) < 16"
    by (simp add: word_less_nat_alt)
  from u8_lt_2[OF assms(2)] have y: "alcd_y_position s = 0 \<or> alcd_y_position s = 1" .
  show ?thesis
  proof (cases "alcd_x_position s = 15")
    case True
    with y show ?thesis
      by (auto simp: alcd_putc_inrange[OF assms] cell_def)
  next
    case False
    then have "unat (alcd_x_position s) \<noteq> 15"
      by (simp add: word_unat_eq_iff)
    with x have x': "unat (alcd_x_position s) < 15" by arith
    then have u: "unat (alcd_x_position s + 1) = unat (alcd_x_position s) + 1"
      by (simp add: unat_word_ariths)
    from x' u have "alcd_x_position s + 1 < 16"
      by (simp add: word_less_nat_alt)
    with False y x' u assms(2) show ?thesis
      by (auto simp: alcd_putc_inrange[OF assms] cell_def)
  qed
qed

lemma foldl_putc_cell:
  "alcd_x_position s < 16 \<Longrightarrow> alcd_y_position s < 2 \<Longrightarrow>
   alcd_x_position (foldl alcd_putc s cs) < 16 \<and> alcd_y_position (foldl alcd_putc s cs) < 2
   \<and> cell (foldl alcd_putc s cs) = (cell s + length cs) mod 32"
proof (induction cs arbitrary: s)
  case Nil
  then have "unat (alcd_x_position s) < 16" "unat (alcd_y_position s) < 2"
    by (simp_all add: word_less_nat_alt)
  with Nil show ?case by (simp add: cell_def)
next
  case (Cons c cs)
  from putc_cell[OF Cons.prems, of c] Cons.IH[of "alcd_putc s c"]
  show ?case by (simp add: mod_Suc_eq mod_simps)
qed

lemma cell_position:
  assumes "alcd_x_position s < 16" "alcd_y_position s < 2"
  shows "alcd_x_position s = of_nat (cell s mod 16) \<and> alcd_y_position s = of_nat (cell s div 16)"
proof -
  from assms have "unat (alcd_x_position s) < 16"
    by (simp add: word_less_nat_alt)
  then show ?thesis by (simp add: cell_def)
qed

lemma sent_one_write: "sent lv (write_evs ini d m) = [(m, d)]"
  using sent_write_evs[of lv ini d m "[]"] by (simp add: sent_Nil)

lemma replicate_14: "replicate 14 x = [x, x, x, x, x, x, x, x, x, x, x, x, x, x]"
  by (simp add: numeral_eq_Suc)

lemma disp_bits:
  "bit (0x08 OR push_bit 2 (of_bool d) OR push_bit 1 (of_bool c) OR of_bool b :: u8) n =
       (n = 3 \<or> (n = 2 \<and> d) \<or> (n = 1 \<and> c) \<or> (n = 0 \<and> b))"
proof -
  consider "n = 0" | "n = 1" | "n = 2" | "n = 3" | "n = 4" | "n = 5" | "n = 6" | "n = 7"
    | "8 \<le> n" by arith
  then show ?thesis
  proof cases
    case 9
    then have "\<not> bit (0x08 OR push_bit 2 (of_bool d) OR push_bit 1 (of_bool c) OR of_bool b :: u8) n"
      using bit_imp_le_length[of "0x08 OR push_bit 2 (of_bool d) OR push_bit 1 (of_bool c) OR of_bool b :: u8" n]
      by auto
    with 9 show ?thesis by auto
  qed (cases d; cases c; cases b; simp)+
qed

lemma alcd_init_position:
  "alcd_x_position (alcd_init bl s) = alcd_x_position s \<and>
   alcd_y_position (alcd_init bl s) = alcd_y_position s"
  by (simp add: alcd_init_eq)

lemma sent_putc_inrange:
  assumes "alcd_x_position s < 16" "alcd_y_position s < 2"
  shows "sent lv (fresh s (alcd_putc s c)) =
      (True, c) # (if alcd_x_position s = 15
                   then [(False, if alcd_y_position s = 0 then 0xC0 else 0x80)] else [])"
  by (simp add: alcd_putc_inrange[OF assms] sent_write_evs sent_one_write sent_Nil)

lemma u8_counter_step:
  assumes "(k::u8) < 8"
  shows "unat (k + 1) = unat k + 1"
proof -
  from assms have "unat k < 8" by (simp add: word_less_nat_alt)
  then show ?thesis by (simp add: unat_word_ariths)
qed

lemma u8_counter_done:
  assumes "\<not> (k::u8) < 8" "unat k \<le> 8"
  shows "unat k = 8"
  using assms by (simp add: word_less_nat_alt)

lemma customChar_loop_eq:
  "unat k \<le> 8 \<Longrightarrow>
   customChar_loop s k a pat =
     (if length pat < 8 - unat k then None
      else Some (s\<lparr>bus := bus s @ glyph_evs (alcd_initStatus s) a (take (8 - unat k) pat)\<rparr>))"
proof (induction s k a pat rule: customChar_loop.induct)
  case (1 s k a pat)
  show ?case
  proof (cases "k < 8")
    case False
    from False "1.prems" have "unat k = 8" by (rule u8_counter_done)
    with False show ?thesis
      by (simp add: customChar_loop.simps[of s k a])
  next
    case True
    then have lt: "unat k < 8" by (simp add: word_less_nat_alt)
    note st = u8_counter_step[OF True]
    show ?thesis
    proof (cases pat)
      case Nil
      with True lt show ?thesis
        by (simp add: customChar_loop.simps[of s k a])
    next
      case (Cons d rest)
      from lt st have le: "unat (k + 1) \<le> 8" by simp
      from lt have tk: "take (8 - unat k) (d # rest) = d # take (8 - unat (k + 1)) rest"
        by (simp add: st take_Cons')
      from "1.IH"[OF True Cons le] True Cons lt st tk show ?thesis
        by (simp add: customChar_loop.simps[of s k a] alcd_write_eq alcd_consts)
           (auto)
    qed
  qed
qed

lemma alcd_customChar_eq:
  "alcd_customChar s slot pat =
     (if length pat < 8 then None
      else Some (alcd_gotoxy
        (s\<lparr>bus := bus s @ glyph_evs (alcd_initStatus s) (0x40 + push_bit 3 slot) (take 8 pat)\<rparr>)
        (alcd_x_position s) (alcd_y_position s)))"
  by (simp add: alcd_customChar_def customChar_loop_eq alcd_consts)

lemma alcd_customChar_sent:
  "map_option (\<lambda>s'. sent lv (fresh s s'))
     (alcd_customChar s slot [p0, p1, p2, p3, p4, p5, p6, p7]) =
   Some [(False, 0x40 + slot * 8), (True, p0), (False, 0x40 + slot * 8 + 1), (True, p1),
         (False, 0x40 + slot * 8 + 2), (True, p2), (False, 0x40 + slot * 8 + 3), (True, p3),
         (False, 0x40 + slot * 8 + 4), (True, p4), (False, 0x40 + slot * 8 + 5), (True, p5),
         (False, 0x40 + slot * 8 + 6), (True, p6), (False, 0x40 + slot * 8 + 7), (True, p7),
         (False, if alcd_x_position s < 16 \<and> alcd_y_position s < 2
                 then (if alcd_y_position s = 0 then 0x80 else 0xC0) + alcd_x_position s
                 else 0x80)]"
  by (simp add: alcd_customChar_eq alcd_gotoxy_eq sent_write_evs sent_one_write sent_Nil push_bit_eq_mult
      add.assoc mult.commute)

lemma alcd_customChar_position:
  "alcd_x_position s < 16 \<Longrightarrow> alcd_y_position s < 2 \<Longrightarrow> 8 \<le> length pat \<Longrightarrow>
   map_option (\<lambda>s'. (alcd_x_position s', alcd_y_position s')) (alcd_customChar s slot pat) =
     Some (alcd_x_position s, alcd_y_position s)"
  by (simp add: alcd_customChar_eq alcd_gotoxy_eq)

lemma glyph_address_no_wrap:
  assumes "(slot::u8) < 8"
  shows "unat (0x40 + slot * 8 + 7) = 64 + unat slot * 8 + 7"
proof -
  from assms have "unat slot < 8" by (simp add: word_less_nat_alt)
  then show ?thesis by (simp add: unat_word_ariths)
qed

lemma gotoxy_range:
  "alcd_x_position (alcd_gotoxy s x y) < 16 \<and> alcd_y_position (alcd_gotoxy s x y) < 2"
  by (simp add: alcd_gotoxy_eq)

lemma puts_range:
  "alcd_puts s str = Some s' \<Longrightarrow> alcd_x_position s < 16 \<Longrightarrow> alcd_y_position s < 2 \<Longrightarrow>
   alcd_x_position s' < 16 \<and> alcd_y_position s' < 2"
proof (induction str arbitrary: s)
  case Nil
  then show ?case by simp
next
  case (Cons c str)
  show ?case
  proof (cases "c = 0")
    case True
    with Cons.prems show ?thesis by simp
  next
    case False
    with Cons.prems(1) have "alcd_puts (alcd_putc s c) str = Some s'" by simp
    moreover from putc_cell[OF Cons.prems(2,3), of c]
    have "alcd_x_position (alcd_putc s c) < 16" "alcd_y_position (alcd_putc s c) < 2"
      by simp_all
    ultimately show ?thesis by (rule Cons.IH)
  qed
qed

lemma puts_defined: "0 \<in> set str \<Longrightarrow> alcd_puts s str \<noteq> None"
  by (induction str arbitrary: s) auto

lemma exec_range:
  assumes "exec bl s c = Some s'" "alcd_x_position s < 16" "alcd_y_position s < 2"
  shows "alcd_x_position s' < 16 \<and> alcd_y_position s' < 2"
proof (cases c)
  case Init
  with assms show ?thesis by (auto simp: alcd_init_position)
next
  case (Gotoxy x y)
  with assms(1) show ?thesis by (auto simp: gotoxy_range)
next
  case Clear
  with assms(1) show ?thesis by (auto simp: alcd_clear_eq)
next
  case (Putc ch)
  with assms(1) putc_cell[OF assms(2,3), of ch] show ?thesis by auto
next
  case (Puts str)
  with assms show ?thesis by (auto dest: puts_range)
next
  case (CustomChar a pat)
  with assms(1) show ?thesis
    by (auto simp: alcd_customChar_eq gotoxy_range split: if_splits)
next
  case (Display d cu b)
  with assms show ?thesis by (auto simp: alcd_display_eq)
qed

lemma exec_defined: "call_ok c \<Longrightarrow> exec bl s c \<noteq> None"
  by (cases c) (simp_all add: puts_defined alcd_customChar_eq)

lemma run_range:
  "run bl s cs = Some s' \<Longrightarrow> alcd_x_position s < 16 \<Longrightarrow> alcd_y_position s < 2 \<Longrightarrow>
   alcd_x_position s' < 16 \<and> alcd_y_position s' < 2"
proof (induction cs arbitrary: s)
  case Nil
  then show ?case by simp
next
  case (Cons c cs)
  from Cons.prems(1) obtain s1 where e: "exec bl s c = Some s1" and r: "run bl s1 cs = Some s'"
    by (auto split: option.splits)
  from exec_range[OF e Cons.prems(2,3)] have "alcd_x_position s1 < 16" "alcd_y_position s1 < 2"
    by simp_all
  with r show ?case by (rule Cons.IH)
qed

lemma run_defined: "list_all call_ok cs \<Longrightarrow> run bl s cs \<noteq> None"
proof (induction cs arbitrary: s)
  case Nil
  then show ?case by simp
next
  case (Cons c cs)
  then have "call_ok c" "list_all call_ok cs" by simp_all
  from exec_defined[OF this(1), of bl s] obtain s1 where "exec bl s c = Some s1" by auto
  with Cons.IH[OF \<open>list_all call_ok cs\<close>, of s1] show ?case by simp
qed

lemma paced_EN:
  assumes "paced d (WritePin EN True # es)"
  shows "\<exists>es'. es = Delay d # WritePin EN False # es' \<and> paced d es'"
proof (cases es)
  case Nil
  with assms show ?thesis by simp
next
  case es: (Cons x xs)
  show ?thesis
  proof (cases x)
    case (WritePin q w)
    with assms es show ?thesis by simp
  next
    case x: (Delay n)
    show ?thesis
    proof (cases xs)
      case Nil
      with assms es x show ?thesis by simp
    next
      case xs: (Cons y ys)
      show ?thesis
      proof (cases y)
        case (Delay k)
        with assms es x xs show ?thesis by simp
      next
        case (WritePin q w)
        with assms es x xs show ?thesis by simp
      qed
    qed
  qed
qed

lemma paced_append: "paced d es1 \<Longrightarrow> paced d es2 \<Longrightarrow> paced d (es1 @ es2)"
proof (induction d es1 rule: paced.induct)
  case (1 d)
  then show ?case by simp
next
  case (2 d e es)
  show ?case
  proof (cases "e = WritePin EN True")
    case False
    with 2 show ?thesis by simp
  next
    case True
    with "2.prems"(1) obtain es' where es: "es = Delay d # WritePin EN False # es'"
      and p: "paced d es'"
      using paced_EN[of d es] by auto
    from "2.IH"(1)[OF True es refl refl refl p "2.prems"(2)] True es show ?thesis
      by simp
  qed
qed

lemma paced_write_evs: "paced (if ini then 50 else 5000) (write_evs ini b m)"
  by (simp add: write_evs_def)

lemma paced_write_evs_cases:
  "paced 50 (write_evs True b m)" "paced 5000 (write_evs False b m)"
  using paced_write_evs[of True b m] paced_write_evs[of False b m] by simp_all

lemma paced_glyph_evs: "paced (if ini then 50 else 5000) (glyph_evs ini a ds)"
  by (induction ds arbitrary: a) (simp_all add: paced_append paced_write_evs)

lemma gotoxy_paced:
  "alcd_initStatus (alcd_gotoxy s x y) = alcd_initStatus s \<and>
   (\<exists>es. bus (alcd_gotoxy s x y) = bus s @ es \<and>
         paced (if alcd_initStatus s then 50 else 5000) es)"
  by (simp add: alcd_gotoxy_eq paced_write_evs)

lemma putc_paced:
  "alcd_initStatus (alcd_putc s c) = alcd_initStatus s \<and>
   (\<exists>es. bus (alcd_putc s c) = bus s @ es \<and>
         paced (if alcd_initStatus s then 50 else 5000) es)"
proof (cases "16 \<le> alcd_x_position s + 1")
  case False
  then show ?thesis by (simp add: alcd_putc_eq paced_write_evs)
next
  case True
  let ?t = "s\<lparr>bus := bus s @ write_evs (alcd_initStatus s) c True,
              alcd_x_position := 0, alcd_y_position := alcd_y_position s + 1\<rparr>"
  from gotoxy_paced[of ?t 0 "alcd_y_position s + 1"]
  obtain es where i: "alcd_initStatus (alcd_gotoxy ?t 0 (alcd_y_position s + 1)) = alcd_initStatus s"
    and b: "bus (alcd_gotoxy ?t 0 (alcd_y_position s + 1)) =
              (bus s @ write_evs (alcd_initStatus s) c True) @ es"
    and p: "paced (if alcd_initStatus s then 50 else 5000) es"
    by auto
  from paced_append[OF paced_write_evs[of "alcd_initStatus s" c True] p]
  have "paced (if alcd_initStatus s then 50 else 5000) (write_evs (alcd_initStatus s) c True @ es)" .
  with True i b show ?thesis by (simp add: alcd_putc_eq)
qed

lemma puts_paced:
  "alcd_puts s str = Some s' \<Longrightarrow>
   alcd_initStatus s' = alcd_initStatus s \<and>
   (\<exists>es. bus s' = bus s @ es \<and> paced (if alcd_initStatus s then 50 else 5000) es)"
proof (induction str arbitrary: s)
  case Nil
  then show ?case by simp
next
  case (Cons c str)
  show ?case
  proof (cases "c = 0")
    case True
    with Cons.prems show ?thesis by auto
  next
    case False
    with Cons.prems have "alcd_puts (alcd_putc s c) str = Some s'" by simp
    from Cons.IH[OF this] putc_paced[of s c]
    obtain es1 es2 where i: "alcd_initStatus s' = alcd_initStatus s"
      and b1: "bus (alcd_putc s c) = bus s @ es1"
      and p1: "paced (if alcd_initStatus s then 50 else 5000) es1"
      and b2: "bus s' = bus (alcd_putc s c) @ es2"
      and p2: "paced (if alcd_initStatus s then 50 else 5000) es2"
      by auto
    from paced_append[OF p1 p2] b1 b2 i show ?thesis by simp
  qed
qed

lemma customChar_paced:
  assumes "alcd_customChar s a pat = Some s'"
  shows "alcd_initStatus s' = alcd_initStatus s \<and>
   (\<exists>es. bus s' = bus s @ es \<and> paced (if alcd_initStatus s then 50 else 5000) es)"
proof -
  let ?g = "glyph_evs (alcd_initStatus s) (0x40 + push_bit 3 a) (take 8 pat)"
  let ?t = "s\<lparr>bus := bus s @ ?g\<rparr>"
  from assms have s': "s' = alcd_gotoxy ?t (alcd_x_position s) (alcd_y_position s)"
    by (simp add: alcd_customChar_eq split: if_splits)
  from gotoxy_paced[of ?t "alcd_x_position s" "alcd_y_position s"]
  obtain es where i: "alcd_initStatus s' = alcd_initStatus s"
    and b: "bus s' = (bus s @ ?g) @ es"
    and p: "paced (if alcd_initStatus s then 50 else 5000) es"
    unfolding s' by auto
  from paced_append[OF paced_glyph_evs p] i b show ?thesis by simp
qed

lemma init_paced: "paced 5000 (fresh s (alcd_init bl s))"
  by (simp add: alcd_init_eq write_evs_def)

lemma exec_paced:
  assumes "exec bl s c = Some s'"
  shows "paced (if c \<noteq> Init \<and> alcd_initStatus s then 50 else 5000) (fresh s s')"
proof (cases "c = Init")
  case True
  with assms show ?thesis by (auto simp: init_paced)
next
  case False
  have "\<exists>es. bus s' = bus s @ es \<and> paced (if alcd_initStatus s then 50 else 5000) es"
  proof (cases c)
    case Init
    with False show ?thesis by simp
  next
    case (Gotoxy x y)
    with assms gotoxy_paced[of s x y] show ?thesis by auto
  next
    case Clear
    with assms show ?thesis
      by (auto simp: alcd_clear_eq paced_write_evs_cases intro!: paced_append)
  next
    case (Putc ch)
    with assms putc_paced[of s ch] show ?thesis by auto
  next
    case (Puts str)
    with assms puts_paced[of s str s'] show ?thesis by auto
  next
    case (CustomChar a pat)
    with assms customChar_paced[of s a pat s'] show ?thesis by auto
  next
    case (Display d cu b)
    with assms show ?thesis
      by (auto simp: alcd_display_eq paced_write_evs_cases)
  qed
  then obtain es where "bus s' = bus s @ es"
    and "paced (if alcd_initStatus s then 50 else 5000) es" by auto
  with False show ?thesis by (simp add: fresh_def)
qed

section \<open>The transport\<close>

text \<open>
  C7. In the 4-bit transport, every \<open>alcd_write s b m\<close> puts exactly the following on the
  bus: RS is written first with the mode; DB4..DB7 receive bits 4..7 of the byte and EN is
  set and then cleared; DB4..DB7 receive bits 0..3 and EN is set and cleared again.
  Whatever the pin levels were before, the controller sees exactly two enable pulses, the
  first with RS at the mode and bits 7-4 of the byte on the data lines, the second with
  RS at the mode and bits 3-0.
\<close>

theorem alcd_write_two_pulses:
  "fresh s (alcd_write s b m) =
     [WritePin RS m,
      WritePin DB4 (bit b 4), WritePin DB5 (bit b 5), WritePin DB6 (bit b 6),
      WritePin DB7 (bit b 7),
      WritePin EN True, Delay (if alcd_initStatus s then 50 else 5000), WritePin EN False,
      WritePin DB4 (bit b 0), WritePin DB5 (bit b 1), WritePin DB6 (bit b 2),
      WritePin DB7 (bit b 3),
      WritePin EN True, Delay (if alcd_initStatus s then 50 else 5000), WritePin EN False]
   \<and> pulses lv (fresh s (alcd_write s b m)) = [(m, drop_bit 4 b), (m, take_bit 4 b)]"
proof
  show "fresh s (alcd_write s b m) =
     [WritePin RS m,
      WritePin DB4 (bit b 4), WritePin DB5 (bit b 5), WritePin DB6 (bit b 6),
      WritePin DB7 (bit b 7),
      WritePin EN True, Delay (if alcd_initStatus s then 50 else 5000), WritePin EN False,
      WritePin DB4 (bit b 0), WritePin DB5 (bit b 1), WritePin DB6 (bit b 2),
      WritePin DB7 (bit b 3),
      WritePin EN True, Delay (if alcd_initStatus s then 50 else 5000), WritePin EN False]"
    by (simp add: alcd_write_eq write_evs_def)
  have "pulses lv (write_evs (alcd_initStatus s) b m @ []) =
          [(m, drop_bit 4 b), (m, take_bit 4 b)]"
    by (simp only: pulses_write_evs pulses.simps)
  then show "pulses lv (fresh s (alcd_write s b m)) = [(m, drop_bit 4 b), (m, take_bit 4 b)]"
    by (simp add: alcd_write_eq)
qed

text \<open>
  C6, as stated, has every enable pulse followed by the delay. In \<open>alcd_write\<close> the
  delay runs while EN is high; what follows the falling edge of the first pulse is
  the write of the low nibble to DB4, and nothing follows the second: at the initial
  state, writing 0x41 as data, no pulse is followed by a delay.
\<close>

theorem enable_pulse_delay_counterexample:
  "after_pulse (fresh alcd_start (alcd_write alcd_start 0x41 True)) =
     [Some (WritePin DB4 True), None]
   \<and> Some (Delay 5000) \<notin> set (after_pulse (fresh alcd_start (alcd_write alcd_start 0x41 True)))"
proof -
  have i: "alcd_initStatus alcd_start = False" by (simp add: alcd_start_def)
  have "after_pulse (fresh alcd_start (alcd_write alcd_start 0x41 True)) =
     [Some (WritePin DB4 True), None]"
    by (simp add: alcd_write_eq write_evs_def i)
  then show ?thesis by simp
qed

text \<open>
  C6, amended. Every enable pulse is held for the delay: EN is set, the delay runs, EN is
  cleared, and the transport waits for nothing after that (the first falling edge is
  followed by the write of bit 0 to DB4, the second ends the call). The delay is 5000
  microseconds while \<open>__alcd_initStatus\<close> is false and 50 microseconds once it is true, the mode
  (command or data) playing no part. This holds for both pulses of every
  \<open>alcd_write\<close>, and for every pulse of every public call: with the 50 microsecond
  delay when the call is not \<open>alcd_init\<close> and starts with the flag true, with the 5000
  microsecond delay otherwise (\<open>alcd_init\<close> clears the flag before its first write).
\<close>

theorem enable_pulse_delay:
  "pulse_delays (fresh s (alcd_write s b m)) =
     [Some (if alcd_initStatus s then 50 else 5000), Some (if alcd_initStatus s then 50 else 5000)]
   \<and> paced (if alcd_initStatus s then 50 else 5000) (fresh s (alcd_write s b m))
   \<and> after_pulse (fresh s (alcd_write s b m)) = [Some (WritePin DB4 (bit b 0)), None]
   \<and> (exec bl s c = Some s' \<longrightarrow>
        paced (if c \<noteq> Init \<and> alcd_initStatus s then 50 else 5000) (fresh s s'))"
proof (intro conjI impI)
  show "pulse_delays (fresh s (alcd_write s b m)) =
     [Some (if alcd_initStatus s then 50 else 5000), Some (if alcd_initStatus s then 50 else 5000)]"
    using pulse_delays_write_evs[of "alcd_initStatus s" b m "[]"]
    by (simp add: alcd_write_eq)
  show "paced (if alcd_initStatus s then 50 else 5000) (fresh s (alcd_write s b m))"
    by (simp add: alcd_write_eq paced_write_evs)
  show "after_pulse (fresh s (alcd_write s b m)) = [Some (WritePin DB4 (bit b 0)), None]"
    by (simp add: alcd_write_eq write_evs_def)
next
  assume "exec bl s c = Some s'"
  then show "paced (if c \<noteq> Init \<and> alcd_initStatus s then 50 else 5000) (fresh s s')"
    by (rule exec_paced)
qed

theorem enable_pulse_delay_witness:
  "exec False alcd_start (Putc 0x41) = Some (alcd_putc alcd_start 0x41)
   \<and> paced 5000 (fresh alcd_start (alcd_putc alcd_start 0x41))
   \<and> exec False (alcd_init False alcd_start) (Putc 0x41) =
        Some (alcd_putc (alcd_init False alcd_start) 0x41)
   \<and> paced 50 (fresh (alcd_init False alcd_start) (alcd_putc (alcd_init False alcd_start) 0x41))"
proof -
  have a: "exec False alcd_start (Putc 0x41) = Some (alcd_putc alcd_start 0x41)" by simp
  have b: "exec False (alcd_init False alcd_start) (Putc 0x41) =
        Some (alcd_putc (alcd_init False alcd_start) 0x41)" by simp
  have i0: "alcd_initStatus alcd_start = False" by (simp add: alcd_start_def)
  have i1: "alcd_initStatus (alcd_init False alcd_start) = True" by (simp add: alcd_init_eq)
  from enable_pulse_delay[of alcd_start 0 False False "Putc 0x41" "alcd_putc alcd_start 0x41"]
    a i0
  have c: "paced 5000 (fresh alcd_start (alcd_putc alcd_start 0x41))" by simp
  from enable_pulse_delay[of "alcd_init False alcd_start" 0 False False "Putc 0x41"
      "alcd_putc (alcd_init False alcd_start) 0x41"] b i1
  have d: "paced 50 (fresh (alcd_init False alcd_start)
             (alcd_putc (alcd_init False alcd_start) 0x41))" by simp
  from a b c d show ?thesis by blast
qed

section \<open>Cursor positioning\<close>

text \<open>
  C2. For every column and row, \<open>alcd_gotoxy\<close> stores the requested position when the
  column is below 16 and the row below 2, and stores (0,0) otherwise; in both cases it
  sends exactly one transfer, a command: the line base 0x80 (row 0) or 0xC0 (row 1) plus
  the column for an accepted position, and 0x80, the address of the stored (0,0), for a
  rejected one.
\<close>

theorem alcd_gotoxy_spec:
  "alcd_x_position (alcd_gotoxy s col row) = (if col < 16 \<and> row < 2 then col else 0)
   \<and> alcd_y_position (alcd_gotoxy s col row) = (if col < 16 \<and> row < 2 then row else 0)
   \<and> sent lv (fresh s (alcd_gotoxy s col row)) =
       [(False, if col < 16 \<and> row < 2 then (if row = 0 then 0x80 else 0xC0) + col else 0x80)]"
  by (simp add: alcd_gotoxy_eq sent_one_write)

text \<open>
  C4. From every state, \<open>alcd_clear\<close> is: write 0x01 as a command, set the stored column
  and row to 0, then delay 5000 microseconds. On the bus the 5000 microsecond delay comes
  after all events of the write, the only transfer seen is the command 0x01, and the
  stored position afterwards is (0,0).
\<close>

theorem alcd_clear_spec:
  "alcd_clear s =
     alcd_delay ((alcd_write s 0x01 False)\<lparr>alcd_x_position := 0, alcd_y_position := 0\<rparr>) 5000
   \<and> fresh s (alcd_clear s) = fresh s (alcd_write s 0x01 False) @ [Delay 5000]
   \<and> sent lv (fresh s (alcd_clear s)) = [(False, 0x01)]
   \<and> alcd_x_position (alcd_clear s) = 0 \<and> alcd_y_position (alcd_clear s) = 0"
proof -
  have "sent lv (write_evs (alcd_initStatus s) 1 False @ [Delay 5000]) = [(False, 1)]"
    by (simp add: sent_write_evs sent_Delay sent_Nil)
  then show ?thesis
    by (simp add: alcd_clear_eq alcd_write_eq alcd_delay_def)
qed

section \<open>Character output\<close>

text \<open>
  C3. From every state with column below 16 and row below 2, \<open>alcd_putc\<close> writes the
  character as data and adds one to the column; when the column thereby reaches 16 (that
  is, when it was 15) the column is set to 0, the row is incremented and \<open>alcd_gotoxy\<close>
  is called with the new position, which sends the address command of the position it
  stores. The stored position afterwards is (column + 1, row) below column 15, (0, 1) from
  (15, 0), and (0, 0) from (15, 1), where \<open>alcd_gotoxy\<close> rejects row 2. Sixteen characters
  written from (0, 0) leave the cursor at (0, 1), and a seventeenth leaves it at (1, 1).
\<close>

theorem alcd_putc_spec:
  assumes "alcd_x_position s < 16" and "alcd_y_position s < 2"
  shows "alcd_putc s c =
      (if 16 \<le> alcd_x_position s + 1
       then alcd_gotoxy ((alcd_write s c True)\<lparr>alcd_x_position := 0,
                           alcd_y_position := alcd_y_position s + 1\<rparr>)
              0 (alcd_y_position s + 1)
       else (alcd_write s c True)\<lparr>alcd_x_position := alcd_x_position s + 1\<rparr>)
    \<and> (16 \<le> alcd_x_position s + 1) = (alcd_x_position s = 15)
    \<and> sent lv (fresh s (alcd_putc s c)) =
        (True, c) # (if alcd_x_position s = 15
                     then [(False, if alcd_y_position s = 0 then 0xC0 else 0x80)] else [])
    \<and> alcd_x_position (alcd_putc s c) =
        (if alcd_x_position s = 15 then 0 else alcd_x_position s + 1)
    \<and> alcd_y_position (alcd_putc s c) =
        (if alcd_x_position s = 15 then (if alcd_y_position s = 0 then 1 else 0)
         else alcd_y_position s)
    \<and> (alcd_x_position s = 0 \<and> alcd_y_position s = 0 \<and> length cs = 16 \<longrightarrow>
         (alcd_x_position (foldl alcd_putc s cs), alcd_y_position (foldl alcd_putc s cs)) = (0, 1)
         \<and> (alcd_x_position (alcd_putc (foldl alcd_putc s cs) c),
            alcd_y_position (alcd_putc (foldl alcd_putc s cs) c)) = (1, 1))
    \<and> (alcd_x_position t = 15 \<and> alcd_y_position t = 1 \<longrightarrow>
         (alcd_x_position (alcd_putc t c), alcd_y_position (alcd_putc t c)) = (0, 0))"
proof (intro conjI impI)
  show "alcd_putc s c =
      (if 16 \<le> alcd_x_position s + 1
       then alcd_gotoxy ((alcd_write s c True)\<lparr>alcd_x_position := 0,
                           alcd_y_position := alcd_y_position s + 1\<rparr>)
              0 (alcd_y_position s + 1)
       else (alcd_write s c True)\<lparr>alcd_x_position := alcd_x_position s + 1\<rparr>)"
    by (simp add: alcd_putc_eq alcd_write_eq)
  show "(16 \<le> alcd_x_position s + 1) = (alcd_x_position s = 15)"
    by (rule u8_lt_16_succ[OF assms(1)])
  show "sent lv (fresh s (alcd_putc s c)) =
        (True, c) # (if alcd_x_position s = 15
                     then [(False, if alcd_y_position s = 0 then 0xC0 else 0x80)] else [])"
    by (rule sent_putc_inrange[OF assms])
  show "alcd_x_position (alcd_putc s c) =
        (if alcd_x_position s = 15 then 0 else alcd_x_position s + 1)"
    by (simp add: alcd_putc_inrange[OF assms])
  show "alcd_y_position (alcd_putc s c) =
        (if alcd_x_position s = 15 then (if alcd_y_position s = 0 then 1 else 0)
         else alcd_y_position s)"
    by (simp add: alcd_putc_inrange[OF assms])
next
  assume h: "alcd_x_position s = 0 \<and> alcd_y_position s = 0 \<and> length cs = 16"
  let ?s16 = "foldl alcd_putc s cs"
  from foldl_putc_cell[OF assms, of cs] h
  have r: "alcd_x_position ?s16 < 16" "alcd_y_position ?s16 < 2" and c16: "cell ?s16 = 16"
    by (simp_all add: cell_def)
  from cell_position[OF r] c16
  show p16: "(alcd_x_position ?s16, alcd_y_position ?s16) = (0, 1)"
    by simp
  then show "(alcd_x_position (alcd_putc ?s16 c), alcd_y_position (alcd_putc ?s16 c)) = (1, 1)"
    by (simp add: alcd_putc_inrange[OF r])
next
  assume h: "alcd_x_position t = 15 \<and> alcd_y_position t = 1"
  then have "alcd_x_position t < 16" "alcd_y_position t < 2" by simp_all
  from alcd_putc_inrange[OF this, of c] h
  show "(alcd_x_position (alcd_putc t c), alcd_y_position (alcd_putc t c)) = (0, 0)"
    by simp
qed

theorem alcd_putc_spec_witness:
  "alcd_x_position alcd_start < 16 \<and> alcd_y_position alcd_start < 2
   \<and> alcd_x_position alcd_start = 0 \<and> alcd_y_position alcd_start = 0
   \<and> length (replicate 16 (0x41::u8)) = 16
   \<and> alcd_x_position (alcd_start\<lparr>alcd_x_position := 15, alcd_y_position := 1\<rparr>) = 15
   \<and> alcd_y_position (alcd_start\<lparr>alcd_x_position := 15, alcd_y_position := 1\<rparr>) = 1
   \<and> sent all_low (fresh alcd_start (alcd_putc alcd_start 0x41)) = [(True, 0x41)]
   \<and> (alcd_x_position (foldl alcd_putc alcd_start (replicate 16 0x41)),
       alcd_y_position (foldl alcd_putc alcd_start (replicate 16 0x41))) = (0, 1)
   \<and> (alcd_x_position (alcd_putc (foldl alcd_putc alcd_start (replicate 16 0x41)) 0x41),
       alcd_y_position (alcd_putc (foldl alcd_putc alcd_start (replicate 16 0x41)) 0x41)) = (1, 1)
   \<and> (alcd_x_position (alcd_putc (alcd_start\<lparr>alcd_x_position := 15, alcd_y_position := 1\<rparr>) 0x41),
       alcd_y_position (alcd_putc (alcd_start\<lparr>alcd_x_position := 15, alcd_y_position := 1\<rparr>) 0x41)) = (0, 0)"
proof -
  have a: "alcd_x_position alcd_start < 16" "alcd_y_position alcd_start < 2"
    by (simp_all add: alcd_start_def)
  have b: "alcd_x_position alcd_start = 0 \<and> alcd_y_position alcd_start = 0
            \<and> length (replicate 16 (0x41::u8)) = 16"
    by (simp add: alcd_start_def)
  have c: "alcd_x_position (alcd_start\<lparr>alcd_x_position := 15, alcd_y_position := 1\<rparr>) = 15
      \<and> alcd_y_position (alcd_start\<lparr>alcd_x_position := 15, alcd_y_position := 1\<rparr>) = 1"
    by simp
  note th = alcd_putc_spec[OF a, where lv = all_low and c = "0x41" and cs = "replicate 16 0x41"
      and t = "alcd_start\<lparr>alcd_x_position := 15, alcd_y_position := 1\<rparr>"]
  have d: "sent all_low (fresh alcd_start (alcd_putc alcd_start 0x41)) = [(True, 0x41)]"
    using th[THEN conjunct2, THEN conjunct2, THEN conjunct1] b by simp
  note rest = th[THEN conjunct2, THEN conjunct2, THEN conjunct2, THEN conjunct2,
      THEN conjunct2]
  from rest a b c d show ?thesis by simp
qed

section \<open>Initialisation\<close>

text \<open>
  C5. Whatever the state before (in particular whatever \<open>__alcd_initStatus\<close> was),
  \<open>alcd_init\<close> puts on the bus: the 50000 microsecond power-on delay first (then the
  backlight pin, where one is configured), then for each of the bytes 0x33, 0x32, 0x28,
  0x0C, 0x0C, 0x06, 0x01 in this order the events of a write made with the flag false,
  followed by a 5000 microsecond delay. The controller sees these seven bytes, all as
  commands; each of the fourteen enable pulses carries the 5000 microsecond delay, which
  the transport uses only while the flag is false; the flag is true at the end.
\<close>

theorem alcd_init_sequence:
  "fresh s (alcd_init bl s) =
     Delay 50000 # (if bl then [WritePin BL True] else []) @
     concat (map (\<lambda>b. write_evs False b False @ [Delay 5000])
               [0x33, 0x32, 0x28, 0x0C, 0x0C, 0x06, 0x01])
   \<and> sent lv (fresh s (alcd_init bl s)) =
       [(False, 0x33), (False, 0x32), (False, 0x28), (False, 0x0C), (False, 0x0C),
        (False, 0x06), (False, 0x01)]
   \<and> pulse_delays (fresh s (alcd_init bl s)) = replicate 14 (Some 5000)
   \<and> alcd_initStatus (alcd_init bl s) = True"
proof -
  have a: "fresh s (alcd_init bl s) =
     Delay 50000 # (if bl then [WritePin BL True] else []) @
     concat (map (\<lambda>b. write_evs False b False @ [Delay 5000])
               [0x33, 0x32, 0x28, 0x0C, 0x0C, 0x06, 0x01])"
    by (simp add: alcd_init_eq)
  have b: "sent lv (fresh s (alcd_init bl s)) =
       [(False, 0x33), (False, 0x32), (False, 0x28), (False, 0x0C), (False, 0x0C),
        (False, 0x06), (False, 0x01)]"
    by (simp add: alcd_init_eq sent_write_evs sent_Delay sent_BL sent_Nil)
  have c: "pulse_delays (fresh s (alcd_init bl s)) = replicate 14 (Some 5000)"
    by (simp add: alcd_init_eq pulse_delays_write_evs replicate_14)
  have d: "alcd_initStatus (alcd_init bl s) = True"
    by (simp add: alcd_init_eq)
  from a b c d show ?thesis by (intro conjI)
qed

text \<open>
  C10. \<open>alcd_init\<close> leaves the stored column and row as they were, although the last
  byte it sends is the clear-display command 0x01; \<open>alcd_clear\<close> sets both to 0. After
  initialising, writing one character and initialising again, the stored column is 1;
  with \<open>alcd_clear\<close> as the third call it is 0.
\<close>

theorem alcd_init_keeps_position:
  "alcd_x_position (alcd_init bl s) = alcd_x_position s
   \<and> alcd_y_position (alcd_init bl s) = alcd_y_position s
   \<and> last (sent lv (fresh s (alcd_init bl s))) = (False, 0x01)
   \<and> alcd_x_position (alcd_clear s) = 0 \<and> alcd_y_position (alcd_clear s) = 0
   \<and> map_option alcd_x_position (run bl alcd_start [Init, Putc 0x41, Init]) = Some 1
   \<and> map_option alcd_x_position (run bl alcd_start [Init, Putc 0x41, Clear]) = Some 0"
proof (intro conjI)
  have r: "alcd_x_position (alcd_init bl alcd_start) < 16"
          "alcd_y_position (alcd_init bl alcd_start) < 2"
    by (simp_all add: alcd_init_position alcd_start_def)
  have p0: "alcd_x_position alcd_start = 0" "alcd_y_position alcd_start = 0"
    by (simp_all add: alcd_start_def)
  show "last (sent lv (fresh s (alcd_init bl s))) = (False, 0x01)"
    by (simp add: alcd_init_eq sent_write_evs sent_Delay sent_BL sent_Nil)
  show "map_option alcd_x_position (run bl alcd_start [Init, Putc 0x41, Init]) = Some 1"
    using p0 by (simp add: alcd_init_position alcd_putc_inrange[OF r])
  show "map_option alcd_x_position (run bl alcd_start [Init, Putc 0x41, Clear]) = Some 0"
    by (simp add: alcd_clear_eq)
qed (simp_all add: alcd_init_position alcd_clear_eq)

section \<open>Display control\<close>

text \<open>
  C9. For all three booleans, \<open>alcd_display\<close> sends exactly one transfer, a command, whose
  byte is 0x08 with bit 2 set exactly when the display is on, bit 1 exactly when the
  cursor is on and bit 0 exactly when blink is on (bit 3 is the only other bit set). With
  (on, off, off) the byte is 0x0C, with (on, on, on) it is 0x0F.
\<close>

theorem alcd_display_byte:
  "sent lv (fresh s (alcd_display s displayOn cursorOn blinkOn)) =
     [(False, 0x08 OR push_bit 2 (of_bool displayOn) OR push_bit 1 (of_bool cursorOn)
              OR of_bool blinkOn)]
   \<and> bit (0x08 OR push_bit 2 (of_bool displayOn) OR push_bit 1 (of_bool cursorOn)
              OR of_bool blinkOn :: u8) n =
       (n = 3 \<or> (n = 2 \<and> displayOn) \<or> (n = 1 \<and> cursorOn) \<or> (n = 0 \<and> blinkOn))
   \<and> sent lv (fresh s (alcd_display s True False False)) = [(False, 0x0C)]
   \<and> sent lv (fresh s (alcd_display s True True True)) = [(False, 0x0F)]"
proof (intro conjI)
  show "sent lv (fresh s (alcd_display s displayOn cursorOn blinkOn)) =
     [(False, 0x08 OR push_bit 2 (of_bool displayOn) OR push_bit 1 (of_bool cursorOn)
              OR of_bool blinkOn)]"
    by (simp only: alcd_display_eq fresh_append sent_one_write)
  show "bit (0x08 OR push_bit 2 (of_bool displayOn) OR push_bit 1 (of_bool cursorOn)
              OR of_bool blinkOn :: u8) n =
       (n = 3 \<or> (n = 2 \<and> displayOn) \<or> (n = 1 \<and> cursorOn) \<or> (n = 0 \<and> blinkOn))"
    by (rule disp_bits)
  show "sent lv (fresh s (alcd_display s True False False)) = [(False, 0x0C)]"
    by (simp add: alcd_display_eq sent_one_write)
  show "sent lv (fresh s (alcd_display s True True True)) = [(False, 0x0F)]"
    by (simp add: alcd_display_eq sent_one_write)
qed

section \<open>Custom characters\<close>

text \<open>
  C8, as stated, has \<open>alcd_customChar\<close> make exactly 16 transfers. At the initial state,
  for slot 3 and the pattern 1..8, the controller receives 17: the call to \<open>alcd_gotoxy\<close>
  after the loop sends one more command.
\<close>

theorem alcd_customChar_counterexample:
  "map_option (length \<circ> sent all_low \<circ> fresh alcd_start)
     (alcd_customChar alcd_start 3 [1, 2, 3, 4, 5, 6, 7, 8]) = Some 17
   \<and> map_option (length \<circ> sent all_low \<circ> fresh alcd_start)
     (alcd_customChar alcd_start 3 [1, 2, 3, 4, 5, 6, 7, 8]) \<noteq> Some 16"
proof -
  have "map_option (length \<circ> sent all_low \<circ> fresh alcd_start)
          (alcd_customChar alcd_start 3 [1, 2, 3, 4, 5, 6, 7, 8]) =
        map_option length (map_option (\<lambda>s'. sent all_low (fresh alcd_start s'))
          (alcd_customChar alcd_start 3 [1, 2, 3, 4, 5, 6, 7, 8]))"
    by (simp add: option.map_comp comp_def)
  also have "\<dots> = Some 17"
    by (simp only: alcd_customChar_sent option.map list.size length_Cons) simp
  finally have e: "map_option (length \<circ> sent all_low \<circ> fresh alcd_start)
          (alcd_customChar alcd_start 3 [1, 2, 3, 4, 5, 6, 7, 8]) = Some 17" .
  show ?thesis unfolding e by simp
qed

text \<open>
  C8, amended. For every slot in 0..7 and every 8-byte pattern, from a state with column
  below 16 and row below 2, \<open>alcd_customChar\<close> makes exactly 17 transfers: for each row i
  in 0..7 the command byte 0x40 + slot * 8 + i followed by the i-th pattern byte as data,
  and then one more command, the DDRAM address of the stored position (0x80 or 0xC0 plus
  the column), sent by \<open>alcd_gotoxy\<close>. The stored column and row are the same after the
  call as before. The addresses do not wrap: the last one is 64 + slot * 8 + 7 as a
  number.
\<close>

theorem alcd_customChar_transfers:
  assumes "slot < 8" and "alcd_x_position s < 16" and "alcd_y_position s < 2"
  shows "map_option (\<lambda>s'. (sent lv (fresh s s'), alcd_x_position s', alcd_y_position s'))
           (alcd_customChar s slot [p0, p1, p2, p3, p4, p5, p6, p7]) =
         Some ([(False, 0x40 + slot * 8), (True, p0), (False, 0x40 + slot * 8 + 1), (True, p1),
                (False, 0x40 + slot * 8 + 2), (True, p2), (False, 0x40 + slot * 8 + 3), (True, p3),
                (False, 0x40 + slot * 8 + 4), (True, p4), (False, 0x40 + slot * 8 + 5), (True, p5),
                (False, 0x40 + slot * 8 + 6), (True, p6), (False, 0x40 + slot * 8 + 7), (True, p7),
                (False, (if alcd_y_position s = 0 then 0x80 else 0xC0) + alcd_x_position s)],
               alcd_x_position s, alcd_y_position s)
       \<and> unat (0x40 + slot * 8 + 7) = 64 + unat slot * 8 + 7"
proof
  obtain s' where s': "alcd_customChar s slot [p0, p1, p2, p3, p4, p5, p6, p7] = Some s'"
    by (simp add: alcd_customChar_eq)
  from alcd_customChar_sent[of lv s slot p0 p1 p2 p3 p4 p5 p6 p7]
       alcd_customChar_position[OF assms(2,3), of "[p0, p1, p2, p3, p4, p5, p6, p7]" slot]
       assms(2,3)
  show "map_option (\<lambda>s'. (sent lv (fresh s s'), alcd_x_position s', alcd_y_position s'))
           (alcd_customChar s slot [p0, p1, p2, p3, p4, p5, p6, p7]) =
         Some ([(False, 0x40 + slot * 8), (True, p0), (False, 0x40 + slot * 8 + 1), (True, p1),
                (False, 0x40 + slot * 8 + 2), (True, p2), (False, 0x40 + slot * 8 + 3), (True, p3),
                (False, 0x40 + slot * 8 + 4), (True, p4), (False, 0x40 + slot * 8 + 5), (True, p5),
                (False, 0x40 + slot * 8 + 6), (True, p6), (False, 0x40 + slot * 8 + 7), (True, p7),
                (False, (if alcd_y_position s = 0 then 0x80 else 0xC0) + alcd_x_position s)],
               alcd_x_position s, alcd_y_position s)"
    unfolding s' by simp
  show "unat (0x40 + slot * 8 + 7) = 64 + unat slot * 8 + 7"
    by (rule glyph_address_no_wrap[OF assms(1)])
qed

theorem alcd_customChar_transfers_witness:
  "(3::u8) < 8 \<and> alcd_x_position alcd_start < 16 \<and> alcd_y_position alcd_start < 2
   \<and> map_option (\<lambda>s'. (sent all_low (fresh alcd_start s'), alcd_x_position s', alcd_y_position s'))
        (alcd_customChar alcd_start 3 [1, 2, 3, 4, 5, 6, 7, 8]) =
      Some ([(False, 0x58), (True, 1), (False, 0x59), (True, 2), (False, 0x5A), (True, 3),
             (False, 0x5B), (True, 4), (False, 0x5C), (True, 5), (False, 0x5D), (True, 6),
             (False, 0x5E), (True, 7), (False, 0x5F), (True, 8), (False, 0x80)], 0, 0)"
proof -
  have a: "(3::u8) < 8" by simp
  have b: "alcd_x_position alcd_start < 16" "alcd_y_position alcd_start < 2"
    by (simp_all add: alcd_start_def)
  have c: "alcd_x_position alcd_start = 0" "alcd_y_position alcd_start = 0"
    by (simp_all add: alcd_start_def)
  from alcd_customChar_transfers[OF a b, where lv = all_low and ?p0.0 = 1 and ?p1.0 = 2
      and ?p2.0 = 3 and ?p3.0 = 4 and ?p4.0 = 5 and ?p5.0 = 6 and ?p6.0 = 7 and ?p7.0 = 8]
    a b c
  show ?thesis by simp
qed

section \<open>The cursor invariant\<close>

text \<open>
  C1. Every well-formed sequence of calls to \<open>alcd_init\<close>, \<open>alcd_gotoxy\<close>, \<open>alcd_clear\<close>,
  \<open>alcd_putc\<close>, \<open>alcd_puts\<close>, \<open>alcd_customChar\<close> and \<open>alcd_display\<close> that starts from the
  initial state returns, and whenever a sequence of calls has returned, the stored column
  is below 16 and the stored row below 2. Every prefix of a sequence of calls is a
  sequence of calls, so the bound holds after each call.
\<close>

theorem cursor_in_range:
  "(list_all call_ok cs \<longrightarrow> run bl alcd_start cs \<noteq> None)
   \<and> (run bl alcd_start cs = Some s \<longrightarrow> alcd_x_position s < 16 \<and> alcd_y_position s < 2)"
proof (intro conjI impI)
  assume "list_all call_ok cs"
  then show "run bl alcd_start cs \<noteq> None" by (rule run_defined)
next
  assume "run bl alcd_start cs = Some s"
  moreover have "alcd_x_position alcd_start < 16" "alcd_y_position alcd_start < 2"
    by (simp_all add: alcd_start_def)
  ultimately show "alcd_x_position s < 16" "alcd_y_position s < 2"
    by (auto dest: run_range)
qed

theorem cursor_in_range_witness:
  "list_all call_ok [Init, Gotoxy 15 1, Putc 0x41, Puts [0x48, 0x69, 0], Gotoxy 16 0]
   \<and> run False alcd_start [Init, Gotoxy 15 1, Putc 0x41, Puts [0x48, 0x69, 0], Gotoxy 16 0]
       \<noteq> None
   \<and> alcd_x_position (the (run False alcd_start
         [Init, Gotoxy 15 1, Putc 0x41, Puts [0x48, 0x69, 0], Gotoxy 16 0])) < 16
   \<and> alcd_y_position (the (run False alcd_start
         [Init, Gotoxy 15 1, Putc 0x41, Puts [0x48, 0x69, 0], Gotoxy 16 0])) < 2"
proof -
  let ?cs = "[Init, Gotoxy 15 1, Putc 0x41, Puts [0x48, 0x69, 0], Gotoxy 16 0]"
  have ok: "list_all call_ok ?cs" by simp
  note th = cursor_in_range[of ?cs False "the (run False alcd_start ?cs)"]
  from th ok have d: "run False alcd_start ?cs \<noteq> None" by blast
  then have "run False alcd_start ?cs = Some (the (run False alcd_start ?cs))" by simp
  with th have "alcd_x_position (the (run False alcd_start ?cs)) < 16
                \<and> alcd_y_position (the (run False alcd_start ?cs)) < 2" by blast
  with ok d show ?thesis by blast
qed

end
